theory Spec2Isabelle
  imports Main "HOL-Library.Sublist" "HOL-Library.Multiset"
begin

section \<open>The file tree (Pull\_comp.tsx)\<close>

text \<open>
  \<^verbatim>\<open>interface FileInfo\<close>: one node of the repository tree. A field that may be \<^verbatim>\<open>null\<close> is
  an option. \<^verbatim>\<open>children\<close> is declared as an array, but \<^verbatim>\<open>getAllFiles\<close> tests it for
  presence, so an absent or null list is \<open>None\<close>.
\<close>

datatype FileInfo = FileInfo
  (name: string)
  (path: string)
  (type: string)
  (download_url: "string option")
  (parent_path: "string option")
  (children: "FileInfo list option")

text \<open>
  \<^verbatim>\<open>interface RepoData\<close>. The component's field \<^verbatim>\<open>name\<close> is called \<open>repo_name\<close> here, since
  \<open>name\<close> is the selector of \<open>FileInfo\<close>.
\<close>

record RepoData =
  repo_name :: string
  full_name :: string
  description :: "string option"
  stars :: int
  forks :: int
  language :: "string option"
  owner_avatar :: string
  html_url :: string
  contents :: "FileInfo list"
  timestamp :: "string option"

text \<open>
  \<^verbatim>\<open>getAllFiles\<close>: the node itself when its \<^verbatim>\<open>type\<close> is \<^verbatim>\<open>"file"\<close>, then, when it has a
  \<^verbatim>\<open>children\<close> list, the loop that appends the files of each child in turn.
\<close>

fun getAllFiles :: "FileInfo \<Rightarrow> FileInfo list" where
  "getAllFiles (FileInfo n p t d pp ch) =
     (let file = FileInfo n p t d pp ch;
          files = (if type file = ''file'' then [file] else [])
      in case children file of
           None \<Rightarrow> files
         | Some cs \<Rightarrow> foldl (\<lambda>files child. files @ getAllFiles child) files cs)"

text \<open>\<^verbatim>\<open>xs.flatMap(f)\<close> for a callback that returns arrays.\<close>

definition flatMap :: "('a \<Rightarrow> 'b list) \<Rightarrow> 'a list \<Rightarrow> 'b list" where
  "flatMap f xs = concat (map f xs)"

text \<open>
  The spec's side of the flattening: every node of a tree in pre-order, the parent before
  its children, the children in their given order.
\<close>

fun preorder :: "FileInfo \<Rightarrow> FileInfo list" where
  "preorder (FileInfo n p t d pp ch) =
     FileInfo n p t d pp ch #
       (case ch of None \<Rightarrow> [] | Some cs \<Rightarrow> concat (map preorder cs))"

text \<open>
  \<^verbatim>\<open>p.includes(s)\<close>: \<open>s\<close> occurs in \<open>p\<close> as a contiguous run of characters, starting at
  some position of \<open>p\<close>.
\<close>

fun js_includes :: "string \<Rightarrow> string \<Rightarrow> bool" where
  "js_includes [] s = (s = [])"
| "js_includes (c # p) s = (prefix s (c # p) \<or> js_includes p s)"

definition getFileCategory :: "string \<Rightarrow> string" where
  "getFileCategory p =
     (if js_includes p ''/apis/'' then ''backend''
      else if js_includes p ''/components/'' then ''component''
      else if js_includes p ''/utils/'' then ''util''
      else if js_includes p ''/pages/'' then ''page''
      else ''other'')"

text \<open>
  The spec's side of the categorizer: the segments of a path, which are the runs of
  characters between its slashes.
\<close>

fun segments_from :: "string \<Rightarrow> string \<Rightarrow> string list" where
  "segments_from cur [] = [rev cur]"
| "segments_from cur (c # cs) =
     (if c = CHR ''/'' then rev cur # segments_from [] cs else segments_from (c # cur) cs)"

definition segments :: "string \<Rightarrow> string list" where
  "segments p = segments_from [] p"

text \<open>The segments put together again, a slash between two neighbours.\<close>

fun join_slash :: "string list \<Rightarrow> string" where
  "join_slash [] = []"
| "join_slash [x] = x"
| "join_slash (x # y # ys) = x @ CHR ''/'' # join_slash (y # ys)"

section \<open>The store (Pull\_util.ts)\<close>

text \<open>
  \<^verbatim>\<open>interface PullStore\<close>, its data fields. The snapshot type is a parameter: \<^verbatim>\<open>fetchRepo\<close>
  stores whatever the body of the response parses to.
\<close>

record 'r PullStore =
  branches :: "string list"
  selectedBranch :: string
  isPulling :: bool
  isLoading :: bool
  error :: "string option"
  repoData :: "'r option"

text \<open>The store as \<^verbatim>\<open>create\<close> builds it.\<close>

definition initial_store :: "'r PullStore" where
  "initial_store =
     \<lparr>branches = [], selectedBranch = ''main'', isPulling = False, isLoading = False,
      error = None, repoData = None\<rparr>"

text \<open>
  A thrown value, read only through \<^verbatim>\<open>error.message\<close>; \<open>None\<close> is a value without a
  message.
\<close>

datatype js_error = JsError (message: "string option")

text \<open>
  \<^verbatim>\<open>v || d\<close> on a string that may be undefined: the empty string is falsy as well.
\<close>

definition or_else :: "string option \<Rightarrow> string \<Rightarrow> string" where
  "or_else v d = (case v of None \<Rightarrow> d | Some m \<Rightarrow> if m = [] then d else m)"

text \<open>
  What the two awaits of an action come to: \<^verbatim>\<open>fetch\<close> throws; or a response arrives
  (with its \<^verbatim>\<open>ok\<close> flag) and \<^verbatim>\<open>response.json()\<close> throws; or the body parses. A body
  that parses to \<^verbatim>\<open>null\<close> where the action next reads a property of it throws at that
  read, inside the same \<^verbatim>\<open>try\<close>, and is the second case.
\<close>

datatype 'd response =
    FetchRejected js_error
  | JsonRejected bool js_error
  | JsonResolved bool 'd

fun thrown :: "'d response \<Rightarrow> js_error option" where
  "thrown (FetchRejected e) = Some e"
| "thrown (JsonRejected ok e) = Some e"
| "thrown (JsonResolved ok d) = None"

text \<open>The requests handed to the transport, and what the user is shown.\<close>

datatype request =
    GetBranches string
  | FetchRepo string string
  | PullFilesReq "FileInfo list"

datatype effect =
    Fetch request
  | ToastError string
  | ToastSuccess string
  | ToastWarning string

definition setBranches :: "string list \<Rightarrow> 'r PullStore \<Rightarrow> 'r PullStore" where
  "setBranches bs s = s\<lparr>branches := bs\<rparr>"

definition setSelectedBranch :: "string \<Rightarrow> 'r PullStore \<Rightarrow> 'r PullStore" where
  "setSelectedBranch branch s = s\<lparr>selectedBranch := branch\<rparr>"

text \<open>
  \<^verbatim>\<open>fetchBranches\<close>. The parsed body is an object whose field \<^verbatim>\<open>branches\<close> is an array
  (\<open>Some bs\<close>) or absent or null (\<open>None\<close>). With the field absent, \<^verbatim>\<open>data.branches.length\<close> throws
  after \<^verbatim>\<open>set({branches: undefined})\<close>, and the \<^verbatim>\<open>catch\<close> block sets the empty list.
  Nothing is set before the request, so the action is its settling step, applied to the
  store as it is when the response arrives.
\<close>

definition fetchBranches_settle ::
  "string list option response \<Rightarrow> 'r PullStore \<Rightarrow> 'r PullStore" where
  "fetchBranches_settle r s =
     (case r of
        JsonResolved ok (Some bs) \<Rightarrow>
          (let s1 = s\<lparr>branches := bs\<rparr> in
           if length bs > 0 \<and> ''main'' \<notin> set bs \<and> ''master'' \<notin> set bs
           then s1\<lparr>selectedBranch := hd bs\<rparr>
           else s1)
      | JsonResolved ok None \<Rightarrow> s\<lparr>branches := []\<rparr>
      | FetchRejected e \<Rightarrow> s\<lparr>branches := []\<rparr>
      | JsonRejected ok e \<Rightarrow> s\<lparr>branches := []\<rparr>)"

definition fetchBranches ::
  "string \<Rightarrow> string list option response \<Rightarrow> 'r PullStore \<Rightarrow> 'r PullStore \<times> effect list" where
  "fetchBranches url r s = (fetchBranches_settle r s, [Fetch (GetBranches url)])"

text \<open>
  \<^verbatim>\<open>fetchRepo\<close>: the part before the first await, and the settling step, which merges
  its fields into the store as it is by then. The body is stored as it parses, \<^verbatim>\<open>null\<close>
  (\<open>None\<close>) included; the \<^verbatim>\<open>ok\<close> flag of the response is never read.
\<close>

definition fetchRepo_start :: "string \<Rightarrow> 'r PullStore \<Rightarrow> 'r PullStore \<times> effect list" where
  "fetchRepo_start url s =
     (s\<lparr>isLoading := True, error := None\<rparr>, [Fetch (FetchRepo url (selectedBranch s))])"

definition fetchRepo_settle :: "'r option response \<Rightarrow> 'r PullStore \<Rightarrow> 'r PullStore" where
  "fetchRepo_settle r s =
     (case r of
        JsonResolved ok data \<Rightarrow> s\<lparr>repoData := data, isLoading := False\<rparr>
      | FetchRejected e \<Rightarrow>
          s\<lparr>error := Some (or_else (message e) ''Failed to fetch repository''),
            isLoading := False\<rparr>
      | JsonRejected ok e \<Rightarrow>
          s\<lparr>error := Some (or_else (message e) ''Failed to fetch repository''),
            isLoading := False\<rparr>)"

text \<open>The action run with nothing else writing to the store in between.\<close>

definition fetchRepo ::
  "string \<Rightarrow> 'r option response \<Rightarrow> 'r PullStore \<Rightarrow> 'r PullStore \<times> effect list" where
  "fetchRepo url r s =
     (case fetchRepo_start url s of (s1, fx) \<Rightarrow> (fetchRepo_settle r s1, fx))"

definition reset :: "'r PullStore \<Rightarrow> 'r PullStore" where
  "reset s = s\<lparr>isLoading := False, isPulling := False, error := None, repoData := None\<rparr>"

text \<open>A number inside a template literal: its decimal digits.\<close>

fun string_of_nat :: "nat \<Rightarrow> string" where
  "string_of_nat n =
     (if n < 10 then [''0123456789'' ! n]
      else string_of_nat (n div 10) @ [''0123456789'' ! (n mod 10)])"

text \<open>
  The body of the answer to a pull request, as far as it is read: \<^verbatim>\<open>success\<close> (by its
  truth), \<^verbatim>\<open>created_files\<close> and \<^verbatim>\<open>error\<close> (here \<open>pull_error\<close>), the last two possibly absent.
\<close>

record PullResult =
  success :: bool
  created_files :: "string list option"
  pull_error :: "string option"

text \<open>
  \<^verbatim>\<open>pullFiles\<close> of the store: the part before the first await (the guard, or the two
  fields set and the request, whose body is \<^verbatim>\<open>repoData.contents\<close>), the settling step,
  and the action run with nothing else writing to the store in between. The store holds
  no selection, and the action takes no argument.
\<close>

definition pullFiles_start :: "RepoData PullStore \<Rightarrow> RepoData PullStore \<times> effect list" where
  "pullFiles_start s =
     (case repoData s of
        None \<Rightarrow> (s, [ToastError ''Please fetch repository info first''])
      | Some rd \<Rightarrow>
          (s\<lparr>isPulling := True, error := None\<rparr>, [Fetch (PullFilesReq (contents rd))]))"

definition pullFiles_settle ::
  "PullResult response \<Rightarrow> 'r PullStore \<Rightarrow> 'r PullStore \<times> effect list" where
  "pullFiles_settle r s =
     (case r of
        JsonResolved ok data \<Rightarrow>
          (s\<lparr>isPulling := False\<rparr>,
           [ToastSuccess (''Successfully pulled '' @
              string_of_nat (case created_files data of None \<Rightarrow> 0 | Some fs \<Rightarrow> length fs) @
              '' files'')])
      | FetchRejected e \<Rightarrow>
          (s\<lparr>error := Some (or_else (message e) ''Failed to pull repository files''),
             isPulling := False\<rparr>,
           [ToastError ''Failed to pull repository files''])
      | JsonRejected ok e \<Rightarrow>
          (s\<lparr>error := Some (or_else (message e) ''Failed to pull repository files''),
             isPulling := False\<rparr>,
           [ToastError ''Failed to pull repository files'']))"

definition pullFiles ::
  "PullResult response \<Rightarrow> RepoData PullStore \<Rightarrow> RepoData PullStore \<times> effect list" where
  "pullFiles r s =
     (case repoData s of
        None \<Rightarrow> pullFiles_start s
      | Some rd \<Rightarrow>
          (case pullFiles_start s of (s1, fx1) \<Rightarrow>
             (case pullFiles_settle r s1 of (s2, fx2) \<Rightarrow> (s2, fx1 @ fx2))))"

section \<open>The repository card (Pull\_comp.tsx) and the page (Pull\_page.tsx)\<close>

text \<open>
  \<^verbatim>\<open>SortColumn\<close> is \<^verbatim>\<open>'name' | 'path' | 'category'\<close> and \<^verbatim>\<open>SortDirection\<close> is
  \<^verbatim>\<open>'asc' | 'desc'\<close>.
\<close>

datatype SortColumn = ColName | ColPath | ColCategory

datatype SortDirection = Asc | Desc

record SortConfig =
  column :: SortColumn
  direction :: SortDirection

text \<open>The two \<^verbatim>\<open>useState\<close> cells of \<^verbatim>\<open>RepoCard\<close>.\<close>

record CardState =
  selectedFiles :: "string set"
  sortConfig :: SortConfig

text \<open>\<^verbatim>\<open>!v\<close> on a string that may be null: null and the empty string are falsy.\<close>

definition falsy :: "string option \<Rightarrow> bool" where
  "falsy v = (case v of None \<Rightarrow> True | Some s \<Rightarrow> s = [])"

text \<open>
  The click handler of the pull button. \<^verbatim>\<open>onPullFiles\<close> is the optional prop: a handler
  gives the effects it had and the error it threw, if any. The handler changes neither
  cell of the card; the state is passed through to say so.
\<close>

definition pullButton_onClick ::
  "(FileInfo list \<Rightarrow> effect list \<times> js_error option) option \<Rightarrow> FileInfo list \<Rightarrow> CardState
     \<Rightarrow> CardState \<times> effect list" where
  "pullButton_onClick onPullFiles cts st =
     (let allFiles =
            filter (\<lambda>file. path file \<in> selectedFiles st)
              (flatMap getAllFiles (filter (\<lambda>file. falsy (parent_path file)) cts))
      in if length allFiles = 0 then (st, [ToastWarning ''Please select files to pull''])
         else case onPullFiles of
                None \<Rightarrow> (st, [])
              | Some h \<Rightarrow>
                  (case h allFiles of
                     (fx, None) \<Rightarrow> (st, fx)
                   | (fx, Some e) \<Rightarrow> (st, fx @ [ToastError ''Failed to pull files''])))"

text \<open>
  The handler the page passes as \<^verbatim>\<open>onPullFiles\<close>: the request, then one notification.
  It catches what it throws, so it never throws to the card.
\<close>

definition onPullFiles ::
  "PullResult response \<Rightarrow> FileInfo list \<Rightarrow> effect list \<times> js_error option" where
  "onPullFiles r files =
     (Fetch (PullFilesReq files) #
        (case r of
           FetchRejected e \<Rightarrow> [ToastError ''Failed to pull files'']
         | JsonRejected ok e \<Rightarrow> [ToastError ''Failed to pull files'']
         | JsonResolved ok data \<Rightarrow>
             if \<not> ok then [ToastError ''Failed to pull files'']
             else if success data then
               (case created_files data of
                  None \<Rightarrow> [ToastWarning ''No files were pulled'']
                | Some fs \<Rightarrow>
                    if length fs > 0
                    then [ToastSuccess
                            (''Successfully created '' @ string_of_nat (length fs) @ '' files'')]
                    else [ToastWarning ''No files were pulled''])
             else [ToastError (or_else (pull_error data) ''Failed to pull files'')]),
      None)"

text \<open>
  The page: the store, and the card's cells. The card, and with it the pull button, is
  rendered only while the store holds a snapshot, with the snapshot's fields as props;
  without one there is no button to click (\<open>None\<close>). The store's own \<^verbatim>\<open>pullFiles\<close> sees the
  store and nothing of the card.
\<close>

record App =
  store :: "RepoData PullStore"
  card :: CardState

definition app_pullFiles :: "PullResult response \<Rightarrow> App \<Rightarrow> App \<times> effect list" where
  "app_pullFiles r a = (case pullFiles r (store a) of (s', fx) \<Rightarrow> (a\<lparr>store := s'\<rparr>, fx))"

definition app_pullButton :: "PullResult response \<Rightarrow> App \<Rightarrow> (App \<times> effect list) option" where
  "app_pullButton r a =
     (case repoData (store a) of
        None \<Rightarrow> None
      | Some rd \<Rightarrow>
          (case pullButton_onClick (Some (onPullFiles r)) (contents rd) (card a) of
             (c', fx) \<Rightarrow> Some (a\<lparr>card := c'\<rparr>, fx)))"

text \<open>The requests among the effects of an action, in order.\<close>

fun requests :: "effect list \<Rightarrow> request list" where
  "requests [] = []"
| "requests (Fetch q # fx) = q # requests fx"
| "requests (x # fx) = requests fx"

text \<open>
  The spec's side of a pull: the entries of the trees \<open>cts\<close> whose \<^verbatim>\<open>type\<close> is \<^verbatim>\<open>"file"\<close> and
  whose path is in the selection, in pre-order.
\<close>

definition selected_entries :: "FileInfo list \<Rightarrow> string set \<Rightarrow> FileInfo list" where
  "selected_entries cts sel =
     filter (\<lambda>f. type f = ''file'' \<and> path f \<in> sel) (flatMap preorder cts)"

section \<open>Sorting (Pull\_comp.tsx)\<close>

text \<open>
  A comparison callback: negative, zero or positive. \<^verbatim>\<open>String.prototype.localeCompare\<close> and
  \<^verbatim>\<open>Array.prototype.sort\<close> belong to the engine, not to the repository; the functions
  that call them take them as the parameters \<open>localeCompare\<close> and \<open>array_sort\<close>.
\<close>

type_synonym 'a comparefn = "'a \<Rightarrow> 'a \<Rightarrow> int"

text \<open>
  ECMAScript's consistent comparator: every value compares equal to itself, \<open>a\<close> is below
  \<open>b\<close> exactly when \<open>b\<close> is above \<open>a\<close>, and being not above is transitive.
\<close>

definition consistent_comparator :: "'a comparefn \<Rightarrow> bool" where
  "consistent_comparator cmp \<longleftrightarrow>
     (\<forall>a. cmp a a = 0) \<and>
     (\<forall>a b. (cmp a b < 0) = (0 < cmp b a)) \<and>
     (\<forall>a b c. cmp a b \<le> 0 \<and> cmp b c \<le> 0 \<longrightarrow> cmp a c \<le> 0)"

text \<open>
  What ECMAScript requires of the sorted array \<open>ys\<close> for the input \<open>xs\<close>: the same elements,
  in ascending order of the comparator, those that compare equal in their input order.
\<close>

definition stably_sorted :: "'a comparefn \<Rightarrow> 'a list \<Rightarrow> 'a list \<Rightarrow> bool" where
  "stably_sorted cmp xs ys \<longleftrightarrow>
     mset ys = mset xs \<and>
     sorted_wrt (\<lambda>a b. cmp a b \<le> 0) ys \<and>
     (\<forall>a. filter (\<lambda>x. cmp a x = 0) ys = filter (\<lambda>x. cmp a x = 0) xs)"

text \<open>
  A conforming \<^verbatim>\<open>Array.prototype.sort\<close>: the requirement holds whenever the comparator is
  consistent. For any other comparator the standard leaves the order to the engine, and
  nothing is required here.
\<close>

definition es_sort :: "('a comparefn \<Rightarrow> 'a list \<Rightarrow> 'a list) \<Rightarrow> bool" where
  "es_sort array_sort \<longleftrightarrow>
     (\<forall>cmp xs. consistent_comparator cmp \<longrightarrow> stably_sorted cmp xs (array_sort cmp xs))"

text \<open>The callback inside \<^verbatim>\<open>sortFiles\<close>, and \<^verbatim>\<open>sortFiles\<close>, which sorts a copy.\<close>

definition compareFiles :: "string comparefn \<Rightarrow> SortConfig \<Rightarrow> FileInfo comparefn" where
  "compareFiles localeCompare cfg a b =
     (let compareResult =
            (case column cfg of
               ColName \<Rightarrow> localeCompare (name a) (name b)
             | ColPath \<Rightarrow> localeCompare (path a) (path b)
             | ColCategory \<Rightarrow>
                 localeCompare (getFileCategory (path a)) (getFileCategory (path b)))
      in if direction cfg = Asc then compareResult else - compareResult)"

definition sortFiles ::
  "(FileInfo comparefn \<Rightarrow> FileInfo list \<Rightarrow> FileInfo list) \<Rightarrow> string comparefn \<Rightarrow>
     FileInfo list \<Rightarrow> SortConfig \<Rightarrow> FileInfo list" where
  "sortFiles array_sort localeCompare files cfg =
     array_sort (compareFiles localeCompare cfg) files"

text \<open>
  The list the card renders: \<^verbatim>\<open>contents.flatMap(getAllFiles).sort(...)\<close> with the callback
  \<^verbatim>\<open>(a, b) => sortFiles([a, b], sortConfig)[0] === a ? -1 : 1\<close>, here \<open>pairCompare\<close>. The
  test \<^verbatim>\<open>===\<close> is on the identity of objects; on values it gives the same answer whenever
  the two-element sort is stable, since then it puts \<open>b\<close> first only if \<open>b\<close> compares below
  \<open>a\<close>.
\<close>

definition pairCompare ::
  "(FileInfo comparefn \<Rightarrow> FileInfo list \<Rightarrow> FileInfo list) \<Rightarrow> string comparefn \<Rightarrow>
     SortConfig \<Rightarrow> FileInfo comparefn" where
  "pairCompare array_sort localeCompare cfg a b =
     (case sortFiles array_sort localeCompare [a, b] cfg of
        [] \<Rightarrow> 1
      | x # rest \<Rightarrow> if x = a then - 1 else 1)"

definition displayedFiles ::
  "(FileInfo comparefn \<Rightarrow> FileInfo list \<Rightarrow> FileInfo list) \<Rightarrow> string comparefn \<Rightarrow>
     FileInfo list \<Rightarrow> SortConfig \<Rightarrow> FileInfo list" where
  "displayedFiles array_sort localeCompare cts cfg =
     array_sort (pairCompare array_sort localeCompare cfg) (flatMap getAllFiles cts)"

text \<open>
  One engine, to run the card on: an insertion sort that takes the elements from left to
  right and puts each into the sorted prefix before the first element it compares below.
  It asks \<^verbatim>\<open>comparefn(later, earlier) < 0\<close>, the question of V8's insertion step.
\<close>

fun insert_later :: "'a comparefn \<Rightarrow> 'a \<Rightarrow> 'a list \<Rightarrow> 'a list" where
  "insert_later cmp x [] = [x]"
| "insert_later cmp x (y # ys) =
     (if cmp x y < 0 then x # y # ys else y # insert_later cmp x ys)"

definition insertion_sort :: "'a comparefn \<Rightarrow> 'a list \<Rightarrow> 'a list" where
  "insertion_sort cmp xs = foldl (\<lambda>sorted x. insert_later cmp x sorted) [] xs"

text \<open>
  A second engine: an insertion sort that takes the elements from right to left and puts
  each before the first element of the sorted rest that it is not above. It asks
  \<^verbatim>\<open>comparefn(earlier, later) <= 0\<close>, the question of a stable merge.
\<close>

fun insert_earlier :: "'a comparefn \<Rightarrow> 'a \<Rightarrow> 'a list \<Rightarrow> 'a list" where
  "insert_earlier cmp x [] = [x]"
| "insert_earlier cmp x (y # ys) =
     (if cmp x y \<le> 0 then x # y # ys else y # insert_earlier cmp x ys)"

definition insertion_sort_right :: "'a comparefn \<Rightarrow> 'a list \<Rightarrow> 'a list" where
  "insertion_sort_right cmp xs = foldr (insert_earlier cmp) xs []"

text \<open>One collation, to run the card on: the order of the code units.\<close>

fun codeunit_compare :: "string comparefn" where
  "codeunit_compare [] [] = 0"
| "codeunit_compare [] (y # ys) = - 1"
| "codeunit_compare (x # xs) [] = 1"
| "codeunit_compare (x # xs) (y # ys) =
     (if (of_char x :: nat) < of_char y then - 1
      else if (of_char y :: nat) < of_char x then 1
      else codeunit_compare xs ys)"

section \<open>Concrete values for the instances below\<close>

definition busy_store :: "nat PullStore" where
  "busy_store =
     \<lparr>branches = [''main'', ''dev''], selectedBranch = ''dev'', isPulling = True,
      isLoading = True, error = Some ''boom'', repoData = Some 7\<rparr>"

definition file_a :: FileInfo where
  "file_a = FileInfo ''a.ts'' ''src/utils/a.ts'' ''file'' (Some ''https://raw/a'') (Some ''src/utils'') None"

definition file_b :: FileInfo where
  "file_b = FileInfo ''b.ts'' ''src/apis/b.ts'' ''file'' (Some ''https://raw/b'') (Some ''src/apis'') (Some [])"

definition file_readme :: FileInfo where
  "file_readme = FileInfo ''README.md'' ''README.md'' ''file'' (Some ''https://raw/r'') None (Some [])"

definition dir_src :: FileInfo where
  "dir_src =
     FileInfo ''src'' ''src'' ''directory'' None None
       (Some [FileInfo ''utils'' ''src/utils'' ''directory'' None (Some ''src'') (Some [file_a]),
              FileInfo ''apis'' ''src/apis'' ''directory'' None (Some ''src'') (Some [file_b]),
              FileInfo ''empty'' ''src/empty'' ''directory'' None (Some ''src'') None])"

definition file_orphan :: FileInfo where
  "file_orphan = FileInfo ''c.ts'' ''lib/c.ts'' ''file'' (Some ''https://raw/c'') (Some ''lib'') None"

definition snapshot0 :: RepoData where
  "snapshot0 =
     \<lparr>repo_name = ''demo'', full_name = ''octo/demo'', description = None, stars = 3,
      forks = 1, language = Some ''TypeScript'', owner_avatar = ''https://avatars/octo'',
      html_url = ''https://github.com/octo/demo'',
      contents = [dir_src, file_readme, file_orphan], timestamp = None\<rparr>"

definition pull_ok :: "PullResult response" where
  "pull_ok =
     JsonResolved True
       \<lparr>success = True, created_files = Some [''README.md''], pull_error = None\<rparr>"

definition app0 :: "string set \<Rightarrow> App" where
  "app0 sel =
     \<lparr>store = \<lparr>branches = [''main''], selectedBranch = ''main'', isPulling = False,
               isLoading = False, error = Some ''stale'', repoData = Some snapshot0\<rparr>,
      card = \<lparr>selectedFiles = sel, sortConfig = \<lparr>column = ColName, direction = Asc\<rparr>\<rparr>\<rparr>"

definition app_empty :: App where
  "app_empty =
     \<lparr>store = initial_store,
      card = \<lparr>selectedFiles = {}, sortConfig = \<lparr>column = ColName, direction = Asc\<rparr>\<rparr>\<rparr>"

definition index_a :: FileInfo where
  "index_a = FileInfo ''index.ts'' ''src/a/index.ts'' ''file'' None None None"

definition index_b :: FileInfo where
  "index_b = FileInfo ''index.ts'' ''src/b/index.ts'' ''file'' None None None"

definition by_name :: SortConfig where
  "by_name = \<lparr>column = ColName, direction = Asc\<rparr>"

section \<open>Reset\<close>

text \<open>
  C9. \<^verbatim>\<open>reset\<close>, from any store, leaves \<open>isLoading\<close> and \<open>isPulling\<close> false, \<open>error\<close> and
  \<open>repoData\<close> null, and \<open>branches\<close> and \<open>selectedBranch\<close> as they were.
\<close>

theorem reset_clears:
  "isLoading (reset s) = False \<and> isPulling (reset s) = False \<and> error (reset s) = None \<and>
   repoData (reset s) = None \<and> branches (reset s) = branches s \<and>
   selectedBranch (reset s) = selectedBranch s"
  by (simp add: reset_def)

theorem reset_clears_witness:
  "isLoading (reset busy_store) = False \<and> isPulling (reset busy_store) = False \<and>
   error (reset busy_store) = None \<and> repoData (reset busy_store) = None \<and>
   branches (reset busy_store) = [''main'', ''dev''] \<and>
   selectedBranch (reset busy_store) = ''dev''"
  using reset_clears [of busy_store] by (simp add: busy_store_def)

section \<open>Snapshot fetch\<close>

text \<open>
  C8. Whenever \<^verbatim>\<open>fetchRepo\<close> fails (the request or the parse of the body throws \<open>e\<close>),
  from every prior store: \<open>error\<close> is the message of \<open>e\<close>, or
  \<^verbatim>\<open>'Failed to fetch repository'\<close> when \<open>e\<close> has no message or an empty one; \<open>isLoading\<close>
  is false; \<open>repoData\<close> is what it was. The settling step alone does the same to any
  store \<open>s2\<close> it finds when the failure arrives.
\<close>

theorem fetchRepo_failure_keeps_snapshot:
  assumes "thrown r = Some e"
  shows "error (fst (fetchRepo url r s)) =
           Some (case message e of
                   None \<Rightarrow> ''Failed to fetch repository''
                 | Some m \<Rightarrow> if m = [] then ''Failed to fetch repository'' else m) \<and>
         isLoading (fst (fetchRepo url r s)) = False \<and>
         repoData (fst (fetchRepo url r s)) = repoData s \<and>
         error (fetchRepo_settle r s2) = error (fst (fetchRepo url r s)) \<and>
         isLoading (fetchRepo_settle r s2) = False \<and>
         repoData (fetchRepo_settle r s2) = repoData s2"
  using assms
  by (cases r)
     (simp_all add: fetchRepo_def fetchRepo_start_def fetchRepo_settle_def or_else_def
        split: option.splits)

theorem fetchRepo_failure_keeps_snapshot_witness:
  "error (fst (fetchRepo ''u'' (JsonRejected True (JsError (Some ''Unexpected token''))) busy_store))
     = Some ''Unexpected token'' \<and>
   isLoading (fst (fetchRepo ''u'' (JsonRejected True (JsError (Some ''Unexpected token''))) busy_store))
     = False \<and>
   repoData (fst (fetchRepo ''u'' (JsonRejected True (JsError (Some ''Unexpected token''))) busy_store))
     = Some 7 \<and>
   error (fst (fetchRepo ''u'' (FetchRejected (JsError None)) busy_store))
     = Some ''Failed to fetch repository'' \<and>
   repoData (fst (fetchRepo ''u'' (FetchRejected (JsError None)) busy_store)) = Some 7"
  using fetchRepo_failure_keeps_snapshot
          [of "JsonRejected True (JsError (Some ''Unexpected token''))"
              "JsError (Some ''Unexpected token'')" "''u''" busy_store busy_store]
        fetchRepo_failure_keeps_snapshot
          [of "FetchRejected (JsError None)" "JsError None" "''u''" busy_store busy_store]
  by (simp add: busy_store_def)

text \<open>
  C10. For every response whose body parses to \<open>data\<close>, whatever its \<^verbatim>\<open>ok\<close> flag,
  \<^verbatim>\<open>fetchRepo\<close> stores \<open>data\<close> as \<open>repoData\<close>, sets \<open>isLoading\<close> false and leaves \<open>error\<close>
  null; two responses that differ in the flag only end in the same store; and \<open>error\<close> is
  set at the end exactly when the request or the parse threw. So the body of an
  error-status response replaces the snapshot.
\<close>

theorem fetchRepo_ignores_status:
  "repoData (fst (fetchRepo url (JsonResolved ok data) s)) = data \<and>
   isLoading (fst (fetchRepo url (JsonResolved ok data) s)) = False \<and>
   error (fst (fetchRepo url (JsonResolved ok data) s)) = None \<and>
   fetchRepo url (JsonResolved ok data) s = fetchRepo url (JsonResolved ok' data) s \<and>
   (error (fst (fetchRepo url r s)) \<noteq> None) = (thrown r \<noteq> None)"
  by (cases r)
     (simp_all add: fetchRepo_def fetchRepo_start_def fetchRepo_settle_def)

theorem fetchRepo_ignores_status_witness:
  "repoData (fst (fetchRepo ''u'' (JsonResolved False (Some 404)) busy_store)) = Some 404 \<and>
   isLoading (fst (fetchRepo ''u'' (JsonResolved False (Some 404)) busy_store)) = False \<and>
   error (fst (fetchRepo ''u'' (JsonResolved False (Some 404)) busy_store)) = None \<and>
   fetchRepo ''u'' (JsonResolved False (Some 404)) busy_store
     = fetchRepo ''u'' (JsonResolved True (Some 404)) busy_store"
  using fetchRepo_ignores_status
          [of "''u''" False "Some 404" busy_store True "JsonResolved False (Some 404)"]
  by (simp add: fetchRepo_def fetchRepo_start_def fetchRepo_settle_def)

section \<open>Branch discovery\<close>

text \<open>
  C7, as the code has it. On success (the body carries the list \<open>bs\<close>), \<open>branches\<close> is
  \<open>bs\<close>, and \<open>selectedBranch\<close> becomes the first branch of \<open>bs\<close> when \<open>bs\<close> is not empty
  and holds neither \<^verbatim>\<open>main\<close> nor \<^verbatim>\<open>master\<close>; otherwise it is what it was. On failure
  (the request or the parse throws, or the body has no \<^verbatim>\<open>branches\<close>), \<open>branches\<close> is empty
  and \<open>selectedBranch\<close> is what it was.
\<close>

theorem fetchBranches_default_rule:
  "branches (fst (fetchBranches url (JsonResolved ok (Some bs)) s)) = bs \<and>
   selectedBranch (fst (fetchBranches url (JsonResolved ok (Some bs)) s)) =
     (if bs \<noteq> [] \<and> ''main'' \<notin> set bs \<and> ''master'' \<notin> set bs then hd bs
      else selectedBranch s) \<and>
   branches (fst (fetchBranches url (FetchRejected e) s)) = [] \<and>
   selectedBranch (fst (fetchBranches url (FetchRejected e) s)) = selectedBranch s \<and>
   branches (fst (fetchBranches url (JsonRejected ok e) s)) = [] \<and>
   selectedBranch (fst (fetchBranches url (JsonRejected ok e) s)) = selectedBranch s \<and>
   branches (fst (fetchBranches url (JsonResolved ok None) s)) = [] \<and>
   selectedBranch (fst (fetchBranches url (JsonResolved ok None) s)) = selectedBranch s"
  by (simp add: fetchBranches_def fetchBranches_settle_def)

theorem fetchBranches_default_rule_witness:
  "selectedBranch (fst (fetchBranches ''u'' (JsonResolved True (Some [''dev'', ''feature-x'']))
      (initial_store :: nat PullStore))) = ''dev'' \<and>
   selectedBranch (fst (fetchBranches ''u'' (JsonResolved True (Some [''main'', ''dev'']))
      (initial_store :: nat PullStore))) = ''main'' \<and>
   branches (fst (fetchBranches ''u'' (JsonResolved True (Some [''main'', ''dev'']))
      (initial_store :: nat PullStore))) = [''main'', ''dev''] \<and>
   branches (fst (fetchBranches ''u'' (FetchRejected (JsError None)) busy_store)) = [] \<and>
   selectedBranch (fst (fetchBranches ''u'' (FetchRejected (JsError None)) busy_store)) = ''dev''"
  using fetchBranches_default_rule
          [of "''u''" True "[''dev'', ''feature-x'']" "initial_store :: nat PullStore"
              "JsError None"]
        fetchBranches_default_rule
          [of "''u''" True "[''main'', ''dev'']" "initial_store :: nat PullStore"
              "JsError None"]
        fetchBranches_default_rule
          [of "''u''" True "[]" busy_store "JsError None"]
  by (simp add: initial_store_def busy_store_def)

text \<open>
  C7 as the spec words it fails on the empty list: neither \<^verbatim>\<open>main\<close> nor \<^verbatim>\<open>master\<close> is
  among the returned branches, there is no first branch to select, and \<open>selectedBranch\<close>
  stays \<^verbatim>\<open>main\<close>, which is not a returned branch.
\<close>

theorem fetchBranches_empty_list_counterexample:
  "''main'' \<notin> set ([] :: string list) \<and> ''master'' \<notin> set ([] :: string list) \<and>
   branches (fst (fetchBranches ''u'' (JsonResolved True (Some []))
      (initial_store :: nat PullStore))) = [] \<and>
   take 1 ([] :: string list) \<noteq>
     [selectedBranch (fst (fetchBranches ''u'' (JsonResolved True (Some []))
        (initial_store :: nat PullStore)))] \<and>
   selectedBranch (fst (fetchBranches ''u'' (JsonResolved True (Some []))
      (initial_store :: nat PullStore))) = ''main''"
  by (simp add: fetchBranches_def fetchBranches_settle_def initial_store_def)

section \<open>Tree flattener\<close>

lemma foldl_append_concat:
  "foldl (\<lambda>files child. files @ f child) acc cs = acc @ concat (map f cs)"
  by (induction cs arbitrary: acc) simp_all

lemma getAllFiles_preorder:
  "getAllFiles f = filter (\<lambda>x. type x = ''file'') (preorder f)"
proof (induction f rule: getAllFiles.induct)
  case (1 n p t d pp ch)
  show ?case
  proof (cases ch)
    case None
    then show ?thesis by simp
  next
    case (Some cs)
    have IH: "getAllFiles c = filter (\<lambda>x. type x = ''file'') (preorder c)" if "c \<in> set cs" for c
      using 1 Some that by simp
    have "concat (map getAllFiles cs) =
          concat (map (\<lambda>c. filter (\<lambda>x. type x = ''file'') (preorder c)) cs)"
      by (rule arg_cong [where f = concat], rule map_cong [OF refl]) (rule IH)
    also have "\<dots> = filter (\<lambda>x. type x = ''file'') (concat (map preorder cs))"
      by (simp add: filter_concat comp_def)
    finally show ?thesis
      using Some by (simp add: foldl_append_concat)
  qed
qed

lemma flatMap_getAllFiles_preorder:
  "flatMap getAllFiles roots = filter (\<lambda>x. type x = ''file'') (flatMap preorder roots)"
  by (induction roots) (simp_all add: flatMap_def getAllFiles_preorder)

text \<open>
  C3. For every list of roots, \<^verbatim>\<open>roots.flatMap(getAllFiles)\<close> is the pre-order sequence of
  all nodes of the trees (the roots included), cut down to the nodes whose \<^verbatim>\<open>type\<close> is
  \<^verbatim>\<open>"file"\<close>, in that order; no node of it has the \<^verbatim>\<open>type\<close> \<^verbatim>\<open>"directory"\<close>.
\<close>

theorem flatten_is_preorder_files:
  "flatMap getAllFiles roots = filter (\<lambda>f. type f = ''file'') (flatMap preorder roots) \<and>
   filter (\<lambda>f. type f = ''directory'') (flatMap getAllFiles roots) = []"
proof -
  have "filter (\<lambda>f. type f = ''directory'')
          (filter (\<lambda>f. type f = ''file'') (flatMap preorder roots)) = []"
    by (simp add: filter_empty_conv)
  then show ?thesis
    by (simp add: flatMap_getAllFiles_preorder)
qed

theorem flatten_is_preorder_files_witness:
  "flatMap getAllFiles [dir_src, file_readme] = [file_a, file_b, file_readme] \<and>
   filter (\<lambda>f. type f = ''directory'') (flatMap getAllFiles [dir_src, file_readme]) = []"
  using flatten_is_preorder_files [of "[dir_src, file_readme]"]
  by (simp add: flatMap_def dir_src_def file_a_def file_b_def file_readme_def)

section \<open>Categorizer\<close>

lemma js_includes_sublist: "js_includes p s = sublist s p"
  by (induction p) (auto simp: sublist_Cons_right)

text \<open>
  The test for \<^verbatim>\<open>/s/\<close> in terms of segments: the path has the segment \<open>s\<close> with at least
  one segment before it and one after it.
\<close>

lemma segments_from_not_Nil: "segments_from cur p \<noteq> []"
  by (induction p arbitrary: cur) simp_all

lemma segments_from_append_slash:
  "segments_from cur (u @ CHR ''/'' # v) = segments_from cur u @ segments_from [] v"
  by (induction u arbitrary: cur) simp_all

lemma segments_from_no_slash:
  "CHR ''/'' \<notin> set s \<Longrightarrow> segments_from cur s = [rev cur @ s]"
  by (induction s arbitrary: cur) auto

lemma join_slash_Cons: "ys \<noteq> [] \<Longrightarrow> join_slash (x # ys) = x @ CHR ''/'' # join_slash ys"
  by (cases ys) simp_all

lemma join_slash_append:
  "xs \<noteq> [] \<Longrightarrow> ys \<noteq> [] \<Longrightarrow> join_slash (xs @ ys) = join_slash xs @ CHR ''/'' # join_slash ys"
proof (induction xs rule: join_slash.induct)
  case 1
  then show ?case by simp
next
  case (2 x)
  then show ?case by (simp add: join_slash_Cons)
next
  case (3 x y ys)
  then show ?case by simp
qed

lemma join_slash_segments_from: "join_slash (segments_from cur p) = rev cur @ p"
  by (induction p arbitrary: cur) (simp_all add: join_slash_Cons segments_from_not_Nil)

lemma slash_delimited_iff_inner_segment:
  assumes "CHR ''/'' \<notin> set s"
  shows "js_includes p (CHR ''/'' # s @ ''/'') \<longleftrightarrow>
         (\<exists>before after. before \<noteq> [] \<and> after \<noteq> [] \<and> segments p = before @ [s] @ after)"
proof
  assume "js_includes p (CHR ''/'' # s @ ''/'')"
  then obtain u v where p: "p = u @ (CHR ''/'' # s @ ''/'') @ v"
    by (auto simp: js_includes_sublist sublist_def)
  have "segments p = segments_from [] u @ [s] @ segments_from [] v"
    using assms
    by (simp add: p segments_def segments_from_append_slash segments_from_no_slash)
  then show "\<exists>before after. before \<noteq> [] \<and> after \<noteq> [] \<and> segments p = before @ [s] @ after"
    using segments_from_not_Nil by blast
next
  assume "\<exists>before after. before \<noteq> [] \<and> after \<noteq> [] \<and> segments p = before @ [s] @ after"
  then obtain before after where ne: "before \<noteq> []" "after \<noteq> []"
    and seg: "segments p = before @ [s] @ after" by blast
  have "p = join_slash (segments p)"
    by (simp add: segments_def join_slash_segments_from)
  also have "\<dots> = join_slash before @ CHR ''/'' # s @ CHR ''/'' # join_slash after"
    using ne by (simp add: seg join_slash_append join_slash_Cons)
  finally have "p = join_slash before @ (CHR ''/'' # s @ ''/'') @ join_slash after"
    by simp
  then show "js_includes p (CHR ''/'' # s @ ''/'')"
    unfolding js_includes_sublist sublist_def by blast
qed

text \<open>
  C4, as the code has it. The category of a path is decided by containment tests in a
  fixed order, the first match winning, and each test looks for the directory name with
  a slash on both sides: \<^verbatim>\<open>backend\<close> if the path has \<^verbatim>\<open>/apis/\<close> as a contiguous part; else
  \<^verbatim>\<open>component\<close> for \<^verbatim>\<open>/components/\<close>; else \<^verbatim>\<open>util\<close> for \<^verbatim>\<open>/utils/\<close>; else \<^verbatim>\<open>page\<close> for
  \<^verbatim>\<open>/pages/\<close>; else \<^verbatim>\<open>other\<close>.
\<close>

theorem getFileCategory_priority:
  "getFileCategory p =
     (if sublist ''/apis/'' p then ''backend''
      else if sublist ''/components/'' p then ''component''
      else if sublist ''/utils/'' p then ''util''
      else if sublist ''/pages/'' p then ''page''
      else ''other'')"
  by (simp only: getFileCategory_def js_includes_sublist)

theorem getFileCategory_priority_witness:
  "getFileCategory ''src/utils/a.ts'' = ''util'' \<and>
   getFileCategory ''src/apis/b.ts'' = ''backend'' \<and>
   getFileCategory ''src/pages/utils/apis/c.ts'' = ''backend'' \<and>
   getFileCategory ''README.md'' = ''other''"
  using getFileCategory_priority [of "''src/utils/a.ts''"]
        getFileCategory_priority [of "''src/apis/b.ts''"]
  by (simp add: getFileCategory_def)

text \<open>
  C4 as the spec words it fails where the segment is the first (or the last) of the path:
  \<^verbatim>\<open>apis/b.ts\<close> has the segment \<^verbatim>\<open>apis\<close>, and its category is \<^verbatim>\<open>other\<close>.
\<close>

theorem getFileCategory_first_segment_counterexample:
  "''apis'' \<in> set (segments ''apis/b.ts'') \<and> getFileCategory ''apis/b.ts'' = ''other'' \<and>
   ''utils'' \<in> set (segments ''src/utils'') \<and> getFileCategory ''src/utils'' = ''other''"
  by (simp add: getFileCategory_def segments_def)

section \<open>Pull\<close>

text \<open>
  C1, as the code has it. While the store holds a snapshot \<open>rd\<close>: a click on the pull
  button of the card sends, if anything, one request, whose file list is exactly the
  entries of \<^verbatim>\<open>type\<close> \<^verbatim>\<open>"file"\<close> with a selected path, in pre-order, under the top-level
  entries of \<open>contents rd\<close> that have no \<^verbatim>\<open>parent_path\<close>; it sends nothing when that list
  is empty. The store's own \<^verbatim>\<open>pullFiles\<close> sends one request with \<open>contents rd\<close> as it is,
  whatever is selected.
\<close>

theorem pull_request_body:
  assumes "repoData (store a) = Some rd"
  shows "map_option (requests \<circ> snd) (app_pullButton r a) =
           Some (let fs = selected_entries (filter (\<lambda>f. falsy (parent_path f)) (contents rd))
                            (selectedFiles (card a))
                 in if fs = [] then [] else [PullFilesReq fs]) \<and>
         requests (snd (app_pullFiles r a)) = [PullFilesReq (contents rd)]"
proof -
  have "requests (snd (app_pullFiles r a)) = [PullFilesReq (contents rd)]"
    using assms
    by (cases r)
       (simp_all add: app_pullFiles_def pullFiles_def pullFiles_start_def pullFiles_settle_def)
  moreover have "map_option (requests \<circ> snd) (app_pullButton r a) =
           Some (let fs = selected_entries (filter (\<lambda>f. falsy (parent_path f)) (contents rd))
                            (selectedFiles (card a))
                 in if fs = [] then [] else [PullFilesReq fs])"
    using assms
    by (cases r)
       (simp_all add: app_pullButton_def pullButton_onClick_def onPullFiles_def Let_def
          selected_entries_def flatMap_getAllFiles_preorder split: option.splits)
  ultimately show ?thesis by simp
qed

theorem pull_request_body_witness:
  "map_option (requests \<circ> snd)
     (app_pullButton pull_ok (app0 {''README.md'', ''src/apis/b.ts'', ''src''}))
     = Some [PullFilesReq [file_b, file_readme]] \<and>
   requests (snd (app_pullFiles pull_ok (app0 {''README.md'', ''src/apis/b.ts'', ''src''})))
     = [PullFilesReq [dir_src, file_readme, file_orphan]]"
  using pull_request_body
          [of "app0 {''README.md'', ''src/apis/b.ts'', ''src''}" snapshot0 pull_ok]
  by (simp add: app0_def snapshot0_def selected_entries_def flatMap_def falsy_def
        dir_src_def file_a_def file_b_def file_readme_def file_orphan_def)

text \<open>
  C1 as the spec words it fails on both ways to pull. With \<^verbatim>\<open>README.md\<close> and \<^verbatim>\<open>lib/c.ts\<close>
  selected, the selected file entries of the snapshot are those two; the store's
  \<^verbatim>\<open>pullFiles\<close> sends the whole of \<open>contents\<close>, the directory \<^verbatim>\<open>src\<close> included, and the
  button sends \<^verbatim>\<open>README.md\<close> alone, since \<^verbatim>\<open>lib/c.ts\<close> is a top-level entry with a
  \<^verbatim>\<open>parent_path\<close>.
\<close>

theorem pull_request_body_counterexample:
  "selected_entries (contents snapshot0) {''README.md'', ''lib/c.ts''}
     = [file_readme, file_orphan] \<and>
   requests (snd (app_pullFiles pull_ok (app0 {''README.md'', ''lib/c.ts''})))
     = [PullFilesReq [dir_src, file_readme, file_orphan]] \<and>
   map_option (requests \<circ> snd) (app_pullButton pull_ok (app0 {''README.md'', ''lib/c.ts''}))
     = Some [PullFilesReq [file_readme]]"
  by (simp add: app0_def snapshot0_def selected_entries_def flatMap_def falsy_def
        dir_src_def file_a_def file_b_def file_readme_def file_orphan_def pull_ok_def
        app_pullFiles_def pullFiles_def pullFiles_start_def pullFiles_settle_def
        app_pullButton_def pullButton_onClick_def onPullFiles_def Let_def)

text \<open>
  C2, as the code has it. The store's \<^verbatim>\<open>pullFiles\<close> with no snapshot, and a click on the
  pull button with an empty selection, are each rejected before any request: the only
  effect is one notification, and the store and the card are what they were.
\<close>

theorem pull_rejected:
  "(repoData (store a) = None \<longrightarrow>
      app_pullFiles r a = (a, [ToastError ''Please fetch repository info first''])) \<and>
   (repoData (store a) = Some rd \<and> selectedFiles (card a) = {} \<longrightarrow>
      app_pullButton r a = Some (a, [ToastWarning ''Please select files to pull'']))"
  by (simp add: app_pullFiles_def pullFiles_def pullFiles_start_def
        app_pullButton_def pullButton_onClick_def)

theorem pull_rejected_witness:
  "app_pullFiles pull_ok app_empty
     = (app_empty, [ToastError ''Please fetch repository info first'']) \<and>
   requests (snd (app_pullFiles pull_ok app_empty)) = [] \<and>
   app_pullButton pull_ok (app0 {})
     = Some (app0 {}, [ToastWarning ''Please select files to pull''])"
  using pull_rejected [of app_empty pull_ok snapshot0]
        pull_rejected [of "app0 {}" pull_ok snapshot0]
  by (simp add: app_empty_def initial_store_def app0_def)

text \<open>
  C2 as the spec words it fails for the store's \<^verbatim>\<open>pullFiles\<close> under an empty selection:
  with a snapshot in the store it sends the request and clears \<open>error\<close>.
\<close>

theorem pull_rejected_counterexample:
  "selectedFiles (card (app0 {})) = {} \<and>
   requests (snd (app_pullFiles pull_ok (app0 {})))
     = [PullFilesReq [dir_src, file_readme, file_orphan]] \<and>
   error (store (app0 {})) = Some ''stale'' \<and>
   error (store (fst (app_pullFiles pull_ok (app0 {})))) = None"
  by (simp add: app0_def snapshot0_def pull_ok_def
        app_pullFiles_def pullFiles_def pullFiles_start_def pullFiles_settle_def)

section \<open>Sorter\<close>

subsection \<open>Consistent comparators and the engine's sort\<close>

lemma cc_refl: "consistent_comparator cmp \<Longrightarrow> cmp a a = 0"
  by (simp add: consistent_comparator_def)

lemma cc_trans: "consistent_comparator cmp \<Longrightarrow> cmp a b \<le> 0 \<Longrightarrow> cmp b c \<le> 0 \<Longrightarrow> cmp a c \<le> 0"
  unfolding consistent_comparator_def by blast

lemma cc_less_iff: "consistent_comparator cmp \<Longrightarrow> cmp a b < 0 \<longleftrightarrow> \<not> cmp b a \<le> 0"
  unfolding consistent_comparator_def by (metis not_less)

lemma cc_eq_iff: "consistent_comparator cmp \<Longrightarrow> cmp a b = 0 \<longleftrightarrow> cmp a b \<le> 0 \<and> cmp b a \<le> 0"
  unfolding consistent_comparator_def
  by (metis less_le not_less order_refl)

text \<open>The insertion sort is a conforming engine.\<close>

lemma set_insert_later: "set (insert_later cmp x ys) = insert x (set ys)"
  by (induction ys) auto

lemma mset_insert_later: "mset (insert_later cmp x ys) = add_mset x (mset ys)"
  by (induction ys) auto

lemma sorted_insert_later:
  assumes "consistent_comparator cmp" "sorted_wrt (\<lambda>a b. cmp a b \<le> 0) ys"
  shows "sorted_wrt (\<lambda>a b. cmp a b \<le> 0) (insert_later cmp x ys)"
  using assms(2)
proof (induction ys)
  case Nil
  then show ?case by simp
next
  case (Cons y ys)
  show ?case
  proof (cases "cmp x y < 0")
    case True
    then have "cmp x y \<le> 0" by simp
    then have "\<forall>z\<in>set ys. cmp x z \<le> 0"
      using Cons.prems cc_trans [OF assms(1)] by auto
    with True Cons.prems show ?thesis by simp
  next
    case False
    then have "cmp y x \<le> 0"
      using cc_less_iff [OF assms(1), of x y] cc_less_iff [OF assms(1), of y x] by auto
    with False Cons show ?thesis
      by (auto simp: set_insert_later)
  qed
qed

lemma filter_insert_later_other:
  "\<not> P x \<Longrightarrow> filter P (insert_later cmp x ys) = filter P ys"
  by (induction ys) auto

lemma filter_insert_later_tie:
  assumes cc: "consistent_comparator cmp"
    and srt: "sorted_wrt (\<lambda>a b. cmp a b \<le> 0) ys"
    and tie: "cmp a x = 0"
  shows "filter (\<lambda>z. cmp a z = 0) (insert_later cmp x ys) = filter (\<lambda>z. cmp a z = 0) ys @ [x]"
  using srt
proof (induction ys)
  case Nil
  then show ?case using tie by simp
next
  case (Cons y ys)
  show ?case
  proof (cases "cmp x y < 0")
    case True
    have "cmp a z \<noteq> 0" if "z \<in> set (y # ys)" for z
    proof
      assume "cmp a z = 0"
      then have "cmp z a \<le> 0" using cc_eq_iff [OF cc] by blast
      moreover have "cmp a x \<le> 0" using tie by simp
      ultimately have zx: "cmp z x \<le> 0" using cc_trans [OF cc] by blast
      have "cmp y z \<le> 0"
        using that Cons.prems cc_refl [OF cc, of y] by auto
      then have "cmp y x \<le> 0" using zx cc_trans [OF cc] by blast
      then show False using True cc_less_iff [OF cc, of x y] by simp
    qed
    then have "filter (\<lambda>z. cmp a z = 0) (y # ys) = []"
      by (simp add: filter_empty_conv)
    with True tie show ?thesis by simp
  next
    case False
    then show ?thesis using Cons by auto
  qed
qed

lemma insertion_sort_snoc:
  "insertion_sort cmp (xs @ [x]) = insert_later cmp x (insertion_sort cmp xs)"
  by (simp add: insertion_sort_def)

lemma insertion_sort_stably_sorted:
  assumes cc: "consistent_comparator cmp"
  shows "stably_sorted cmp xs (insertion_sort cmp xs)"
proof (induction xs rule: rev_induct)
  case Nil
  then show ?case by (simp add: stably_sorted_def insertion_sort_def)
next
  case (snoc x xs)
  then have m: "mset (insertion_sort cmp xs) = mset xs"
    and s: "sorted_wrt (\<lambda>a b. cmp a b \<le> 0) (insertion_sort cmp xs)"
    and f: "\<And>a. filter (\<lambda>z. cmp a z = 0) (insertion_sort cmp xs) = filter (\<lambda>z. cmp a z = 0) xs"
    by (simp_all add: stably_sorted_def)
  have "filter (\<lambda>z. cmp a z = 0) (insertion_sort cmp (xs @ [x])) = filter (\<lambda>z. cmp a z = 0) (xs @ [x])" for a
  proof (cases "cmp a x = 0")
    case True
    then show ?thesis
      using filter_insert_later_tie [OF cc s True] f by (simp add: insertion_sort_snoc)
  next
    case False
    then show ?thesis
      using f by (simp add: insertion_sort_snoc filter_insert_later_other)
  qed
  then show ?case
    using m sorted_insert_later [OF cc s]
    by (simp add: stably_sorted_def insertion_sort_snoc mset_insert_later)
qed

lemma es_sort_insertion_sort: "es_sort insertion_sort"
  by (simp add: es_sort_def insertion_sort_stably_sorted)

text \<open>So is the second insertion sort.\<close>

lemma set_insert_earlier: "set (insert_earlier cmp x ys) = insert x (set ys)"
  by (induction ys) auto

lemma mset_insert_earlier: "mset (insert_earlier cmp x ys) = add_mset x (mset ys)"
  by (induction ys) auto

lemma sorted_insert_earlier:
  assumes "consistent_comparator cmp" "sorted_wrt (\<lambda>a b. cmp a b \<le> 0) ys"
  shows "sorted_wrt (\<lambda>a b. cmp a b \<le> 0) (insert_earlier cmp x ys)"
  using assms(2)
proof (induction ys)
  case Nil
  then show ?case by simp
next
  case (Cons y ys)
  show ?case
  proof (cases "cmp x y \<le> 0")
    case True
    then have "\<forall>z\<in>set ys. cmp x z \<le> 0"
      using Cons.prems cc_trans [OF assms(1)] by auto
    with True Cons.prems show ?thesis by simp
  next
    case False
    then have "cmp y x \<le> 0"
      using cc_less_iff [OF assms(1), of y x] by simp
    with False Cons show ?thesis
      by (auto simp: set_insert_earlier)
  qed
qed

lemma filter_insert_earlier:
  assumes cc: "consistent_comparator cmp"
  shows "filter (\<lambda>z. cmp a z = 0) (insert_earlier cmp x ys) =
         (if cmp a x = 0 then x # filter (\<lambda>z. cmp a z = 0) ys else filter (\<lambda>z. cmp a z = 0) ys)"
proof (induction ys)
  case Nil
  then show ?case by simp
next
  case (Cons y ys)
  have "cmp a y \<noteq> 0" if "cmp a x = 0" "\<not> cmp x y \<le> 0"
  proof
    assume "cmp a y = 0"
    then have "cmp a y \<le> 0" by simp
    moreover have "cmp x a \<le> 0" using that(1) cc_eq_iff [OF cc] by blast
    ultimately have "cmp x y \<le> 0" using cc_trans [OF cc] by blast
    with that(2) show False by simp
  qed
  with Cons show ?case by auto
qed

lemma insertion_sort_right_stably_sorted:
  assumes cc: "consistent_comparator cmp"
  shows "stably_sorted cmp xs (insertion_sort_right cmp xs)"
proof (induction xs)
  case Nil
  then show ?case by (simp add: stably_sorted_def insertion_sort_right_def)
next
  case (Cons x xs)
  have step: "insertion_sort_right cmp (x # xs) = insert_earlier cmp x (insertion_sort_right cmp xs)"
    by (simp add: insertion_sort_right_def)
  from Cons show ?case
    using sorted_insert_earlier [OF cc, of "insertion_sort_right cmp xs" x]
    by (simp add: stably_sorted_def step mset_insert_earlier filter_insert_earlier [OF cc])
qed

lemma es_sort_insertion_sort_right: "es_sort insertion_sort_right"
  by (simp add: es_sort_def insertion_sort_right_stably_sorted)

lemma compareFiles_consistent:
  assumes "consistent_comparator lc"
  shows "consistent_comparator (compareFiles lc cfg)"
proof -
  define key where "key = (\<lambda>f. case column cfg of
       ColName \<Rightarrow> name f | ColPath \<Rightarrow> path f | ColCategory \<Rightarrow> getFileCategory (path f))"
  have eq: "compareFiles lc cfg a b =
      (if direction cfg = Asc then lc (key a) (key b) else - lc (key a) (key b))" for a b
    by (cases "column cfg") (simp_all add: compareFiles_def key_def)
  have r: "lc u u = 0" for u
    using assms by (rule cc_refl)
  have sym: "(lc u v < 0) = (0 < lc v u)" for u v
    using assms unfolding consistent_comparator_def by blast
  have tr: "lc u w \<le> 0" if "lc u v \<le> 0" "lc v w \<le> 0" for u v w
    using cc_trans [OF assms] that by blast
  show ?thesis
    unfolding consistent_comparator_def
  proof (intro conjI allI impI)
    fix a
    show "compareFiles lc cfg a a = 0"
      by (simp add: eq r)
  next
    fix a b
    show "(compareFiles lc cfg a b < 0) = (0 < compareFiles lc cfg b a)"
      using sym [of "key a" "key b"] sym [of "key b" "key a"] by (simp add: eq)
  next
    fix a b c
    assume ab: "compareFiles lc cfg a b \<le> 0 \<and> compareFiles lc cfg b c \<le> 0"
    show "compareFiles lc cfg a c \<le> 0"
    proof (cases "direction cfg = Asc")
      case True
      with ab show ?thesis
        using tr [of "key a" "key b" "key c"] by (simp add: eq)
    next
      case False
      with ab have "0 \<le> lc (key a) (key b)" "0 \<le> lc (key b) (key c)"
        by (simp_all add: eq)
      then have "lc (key b) (key a) \<le> 0" "lc (key c) (key b) \<le> 0"
        using sym [of "key a" "key b"] sym [of "key b" "key c"] by linarith+
      then have "lc (key c) (key a) \<le> 0"
        using tr [of "key c" "key b" "key a"] by simp
      then have "0 \<le> lc (key a) (key c)"
        using sym [of "key a" "key c"] by linarith
      with False show ?thesis
        by (simp add: eq)
    qed
  qed
qed

lemma stably_sorted_unique:
  assumes cc: "consistent_comparator cmp"
  shows "sorted_wrt (\<lambda>a b. cmp a b \<le> 0) xs \<Longrightarrow> stably_sorted cmp xs ys \<Longrightarrow> ys = xs"
proof (induction xs arbitrary: ys)
  case Nil
  then show ?case by (simp add: stably_sorted_def)
next
  case (Cons x xs)
  from Cons.prems(2) have m: "mset ys = add_mset x (mset xs)"
    and s: "sorted_wrt (\<lambda>a b. cmp a b \<le> 0) ys"
    and f: "\<And>a. filter (\<lambda>z. cmp a z = 0) ys = filter (\<lambda>z. cmp a z = 0) (x # xs)"
    by (simp_all add: stably_sorted_def)
  from m obtain y ys' where ys: "ys = y # ys'" by (cases ys) auto
  have "y \<in> set (x # xs)" using m ys by (metis list.set_intros(1) mset.simps(2) set_mset_mset)
  then have xy: "cmp x y \<le> 0" using Cons.prems(1) cc_refl [OF cc, of x] by auto
  have "x \<in> set (y # ys')" using m ys by (metis list.set_intros(1) mset.simps(2) set_mset_mset)
  then have yx: "cmp y x \<le> 0" using s ys cc_refl [OF cc, of y] by auto
  have tie: "cmp x y = 0" using xy yx cc_eq_iff [OF cc] by blast
  have "y = x" using f [of x] tie ys cc_refl [OF cc, of x] by simp
  have "stably_sorted cmp xs ys'"
    unfolding stably_sorted_def
  proof (intro conjI allI)
    show "mset ys' = mset xs" using m ys \<open>y = x\<close> by simp
    show "sorted_wrt (\<lambda>a b. cmp a b \<le> 0) ys'" using s ys by simp
    show "filter (\<lambda>z. cmp a z = 0) ys' = filter (\<lambda>z. cmp a z = 0) xs" for a
      using f [of a] ys \<open>y = x\<close> by (cases "cmp a x = 0") simp_all
  qed
  then have "ys' = xs" using Cons.IH Cons.prems(1) by simp
  then show ?case using ys \<open>y = x\<close> by simp
qed

subsection \<open>\<^verbatim>\<open>sortFiles\<close>\<close>

text \<open>
  On a conforming engine, with a consistent collation, \<^verbatim>\<open>sortFiles\<close> is stable and
  idempotent for every list, column and direction: its callback is a consistent
  comparator.
\<close>

lemma sortFiles_stable:
  assumes "es_sort array_sort" "consistent_comparator lc"
  shows "filter (\<lambda>x. compareFiles lc cfg a x = 0) (sortFiles array_sort lc files cfg)
           = filter (\<lambda>x. compareFiles lc cfg a x = 0) files"
  using assms compareFiles_consistent [OF assms(2), of cfg]
  by (simp add: es_sort_def stably_sorted_def sortFiles_def)

lemma sortFiles_idempotent:
  assumes "es_sort array_sort" "consistent_comparator lc"
  shows "sortFiles array_sort lc (sortFiles array_sort lc files cfg) cfg
           = sortFiles array_sort lc files cfg"
proof -
  let ?cmp = "compareFiles lc cfg"
  have cc: "consistent_comparator ?cmp" using assms(2) by (rule compareFiles_consistent)
  have "sorted_wrt (\<lambda>a b. ?cmp a b \<le> 0) (array_sort ?cmp files)"
    using assms(1) cc by (simp add: es_sort_def stably_sorted_def)
  moreover have "stably_sorted ?cmp (array_sort ?cmp files) (array_sort ?cmp (array_sort ?cmp files))"
    using assms(1) cc by (simp add: es_sort_def)
  ultimately show ?thesis
    using stably_sorted_unique [OF cc] by (simp add: sortFiles_def)
qed

subsection \<open>The displayed list\<close>

text \<open>
  The callback of the displayed list answers \<open>- 1\<close> whenever \<open>a\<close> is not above \<open>b\<close>, also
  when the two compare equal, and for \<open>a\<close> against itself. It is not a consistent
  comparator on any conforming engine, so the standard fixes no order for the displayed
  list.
\<close>

lemma mset_pair_cases:
  assumes "mset ys = {#a, b#}"
  shows "ys = [a, b] \<or> ys = [b, a]"
proof -
  from assms have "length ys = 2" by (metis size_mset size_add_mset size_empty numeral_2_eq_2)
  then obtain u v where ys: "ys = [u, v]"
    by (metis (no_types) length_0_conv length_Suc_conv numeral_2_eq_2)
  with assms have "{#u, v#} = {#a, b#}" by simp
  then show ?thesis using ys by (auto simp: add_eq_conv_diff)
qed

lemma pairCompare_eq:
  assumes es: "es_sort array_sort" and lc: "consistent_comparator lc"
  shows "pairCompare array_sort lc cfg a b = (if compareFiles lc cfg a b \<le> 0 then - 1 else 1)"
proof -
  let ?cmp = "compareFiles lc cfg"
  let ?ys = "array_sort ?cmp [a, b]"
  have cc: "consistent_comparator ?cmp" using lc by (rule compareFiles_consistent)
  have st: "stably_sorted ?cmp [a, b] ?ys" using es cc by (simp add: es_sort_def)
  show ?thesis
  proof (cases "?cmp a b \<le> 0")
    case True
    then have "?ys = [a, b]" using stably_sorted_unique [OF cc _ st] by simp
    with True show ?thesis by (simp add: pairCompare_def sortFiles_def)
  next
    case False
    have "mset ?ys = {#a, b#}" using st by (simp add: stably_sorted_def)
    then have "?ys = [a, b] \<or> ?ys = [b, a]" by (rule mset_pair_cases)
    moreover have "?ys \<noteq> [a, b]"
      using st False by (auto simp: stably_sorted_def)
    ultimately have "?ys = [b, a]" by simp
    moreover have "b \<noteq> a" using False cc_refl [OF cc, of a] by auto
    ultimately show ?thesis using False by (simp add: pairCompare_def sortFiles_def)
  qed
qed

lemma pairCompare_not_consistent:
  assumes "es_sort array_sort" "consistent_comparator lc"
  shows "\<not> consistent_comparator (pairCompare array_sort lc cfg)"
proof
  assume "consistent_comparator (pairCompare array_sort lc cfg)"
  then have "pairCompare array_sort lc cfg a a = 0" for a by (rule cc_refl)
  moreover have "pairCompare array_sort lc cfg a a = - 1" for a
    using pairCompare_eq [OF assms, of cfg a a]
      cc_refl [OF compareFiles_consistent [OF assms(2)], of cfg a] by simp
  ultimately show False by (metis zero_neq_neg_one)
qed

subsection \<open>The engine and the collation of the instances\<close>

lemma codeunit_compare_refl: "codeunit_compare a a = 0"
  by (induction a) simp_all

lemma codeunit_compare_sym: "(codeunit_compare a b < 0) = (0 < codeunit_compare b a)"
  by (induction a b rule: codeunit_compare.induct) auto

lemma codeunit_compare_trans:
  "codeunit_compare a b \<le> 0 \<Longrightarrow> codeunit_compare b c \<le> 0 \<Longrightarrow> codeunit_compare a c \<le> 0"
proof (induction a arbitrary: b c)
  case Nil
  then show ?case by (cases c) simp_all
next
  case (Cons x xs)
  then obtain y ys where b: "b = y # ys" by (cases b) auto
  with Cons.prems obtain z zs where c: "c = z # zs" by (cases c) auto
  show ?case
    using Cons.prems Cons.IH [of ys zs] unfolding b c
    by (auto split: if_splits)
qed

lemma codeunit_compare_consistent: "consistent_comparator codeunit_compare"
  unfolding consistent_comparator_def
  using codeunit_compare_refl codeunit_compare_sym codeunit_compare_trans by blast

text \<open>
  The hypotheses of the two lemmas on \<^verbatim>\<open>sortFiles\<close> hold of both engines with this
  collation; on the first, for every list, column and direction:
\<close>

lemma sortFiles_on_insertion_sort:
  "filter (\<lambda>x. compareFiles codeunit_compare cfg a x = 0)
     (sortFiles insertion_sort codeunit_compare files cfg)
     = filter (\<lambda>x. compareFiles codeunit_compare cfg a x = 0) files \<and>
   sortFiles insertion_sort codeunit_compare
     (sortFiles insertion_sort codeunit_compare files cfg) cfg
     = sortFiles insertion_sort codeunit_compare files cfg"
  using sortFiles_stable [OF es_sort_insertion_sort codeunit_compare_consistent]
        sortFiles_idempotent [OF es_sort_insertion_sort codeunit_compare_consistent]
  by simp

text \<open>
  C5. Stability holds for \<^verbatim>\<open>sortFiles\<close> (\<open>sortFiles_stable\<close>) and fails for the displayed
  list. Two files named \<^verbatim>\<open>index.ts\<close> compare equal by name; \<^verbatim>\<open>sortFiles\<close> keeps them in
  their input order; the displayed list shows them in the opposite order on the first
  insertion sort, and in their input order on the second: the order of equal keys in the
  displayed list is the engine's choice.
\<close>

theorem displayed_ties_reversed:
  "compareFiles codeunit_compare by_name index_a index_b = 0 \<and>
   flatMap getAllFiles [index_a, index_b] = [index_a, index_b] \<and>
   sortFiles insertion_sort codeunit_compare [index_a, index_b] by_name = [index_a, index_b] \<and>
   displayedFiles insertion_sort codeunit_compare [index_a, index_b] by_name
     = [index_b, index_a] \<and>
   displayedFiles insertion_sort_right codeunit_compare [index_a, index_b] by_name
     = [index_a, index_b]"
  by (simp add: displayedFiles_def pairCompare_def sortFiles_def insertion_sort_def
        insertion_sort_right_def compareFiles_def flatMap_def index_a_def index_b_def
        by_name_def codeunit_compare_refl)

text \<open>
  C6. Idempotence holds for \<^verbatim>\<open>sortFiles\<close> (\<open>sortFiles_idempotent\<close>) and fails for the
  displayed list. On the same two files, ordering the displayed list again gives back the
  input order, which is not the displayed order.
\<close>

theorem displayed_not_idempotent:
  "displayedFiles insertion_sort codeunit_compare [index_a, index_b] by_name
     = [index_b, index_a] \<and>
   displayedFiles insertion_sort codeunit_compare
     (displayedFiles insertion_sort codeunit_compare [index_a, index_b] by_name) by_name
     = [index_a, index_b] \<and>
   sortFiles insertion_sort codeunit_compare
     (sortFiles insertion_sort codeunit_compare [index_a, index_b] by_name) by_name
     = sortFiles insertion_sort codeunit_compare [index_a, index_b] by_name"
  by (simp add: displayedFiles_def pairCompare_def sortFiles_def insertion_sort_def
        compareFiles_def flatMap_def index_a_def index_b_def by_name_def codeunit_compare_refl)

end
